theory Spec2Isabelle
  imports Complex_Main "HOL-Library.Word"
begin

section \<open>Values of the firmware\<close>

text \<open>
  The firmware of \<^verbatim>\<open>esp32cam-pio/src/main.cpp\<close> is embedded with its feature flags at the
  values the file gives them (\<^verbatim>\<open>FEAT_HTTP\<close>, \<^verbatim>\<open>FEAT_EMAIL\<close>, \<^verbatim>\<open>FEAT_LCD\<close> and
  \<^verbatim>\<open>FEAT_SD\<close> are all 1).

  A C \<^verbatim>\<open>float\<close> is one of the finite values, an infinity or a NaN; the finite values
  are rationals. The only operation the firmware applies to a float is the comparison
  \<^verbatim>\<open>score > 0.6f\<close>, which is false as soon as one side is a NaN.
\<close>

datatype c_float = Finite rat | PosInf | NegInf | NaN

fun float_gt :: "c_float \<Rightarrow> c_float \<Rightarrow> bool" where
  "float_gt NaN y = False"
| "float_gt x NaN = False"
| "float_gt (Finite a) (Finite b) = (b < a)"
| "float_gt (Finite a) PosInf = False"
| "float_gt (Finite a) NegInf = True"
| "float_gt PosInf PosInf = False"
| "float_gt PosInf y = True"
| "float_gt NegInf y = False"

text \<open>
  The literal \<^verbatim>\<open>0.6f\<close> of line 234 is the single-precision value nearest to 0.6, which is
  \<open>10066330 / 2 ^ 24\<close> (bit pattern \<^verbatim>\<open>0x3F19999A\<close>). The specification calls it
  \<^verbatim>\<open>MATCH_THRESHOLD\<close>.
\<close>

definition MATCH_THRESHOLD :: c_float where
  "MATCH_THRESHOLD = Finite (5033165 / 8388608)"

text \<open>\<^verbatim>\<open>static float dummyLat = -26.2041f; static float dummyLng = 28.0473f;\<close> are never
  assigned again.\<close>

definition dummyLat :: c_float where
  "dummyLat = Finite (- 13738495 / 524288)"

definition dummyLng :: c_float where
  "dummyLng = Finite (14704863 / 524288)"

text \<open>\<^verbatim>\<open>static int attemptCount\<close> is a 32-bit two's complement integer on the ESP32;
  \<^verbatim>\<open>attemptCount++\<close> is addition on the word, \<^verbatim>\<open>>=\<close> the signed comparison. At
  \<^verbatim>\<open>INT_MAX\<close>, a value no run reaches, the word wraps around where C++ leaves the
  overflow undefined.\<close>

type_synonym c_int = "32 word"

definition MAX_ATTEMPTS :: c_int where
  "MAX_ATTEMPTS = 3"

text \<open>
  The process-wide state: \<^verbatim>\<open>aligned_face_t *authorized_face\<close> (\<open>None\<close> is \<^verbatim>\<open>NULL\<close>,
  \<open>Some a\<close> a buffer holding the aligned face \<open>a\<close>) and \<^verbatim>\<open>attemptCount\<close>.
\<close>

record 'a globals =
  authorized_face :: "'a option"
  attemptCount :: c_int

text \<open>The initialisers of lines 77 and 79. Of this state \<^verbatim>\<open>setup\<close> (lines 93 to 202)
  changes nothing except through its one call of \<^verbatim>\<open>loadAuthorizedFace\<close>.\<close>

definition init_globals :: "'a globals" where
  "init_globals = \<lparr>authorized_face = None, attemptCount = 0\<rparr>"

text \<open>The query string of the ThingSpeak request, field by field (lines 368 to 372).\<close>

record thingspeak_url =
  field1 :: c_float
  field2 :: c_float
  field3 :: int
  field4 :: int

section \<open>Calls to the collaborators\<close>

text \<open>
  Every function of the firmware returns, besides its result, the calls it made to the
  camera, the face library, the display, the serial port, the network and the timer, in the
  order it made them, each with what the call returned. An assignment to \<^verbatim>\<open>attemptCount\<close>
  is recorded as well, so that the values the counter takes inside a cycle are visible.
  \<open>'b\<close> is the type of a bounding box, \<open>'a\<close> that of an aligned face. A call carries
  the arguments and results that the control flow reads or that reach the network; the
  pixels of a frame, the text of the mail and the decimal rendering of the fields of the
  URL are left out. The four \<^verbatim>\<open>dl_lib_free\<close> calls that release a box array are one
  \<open>Free_boxes\<close>.
\<close>

datatype ('b, 'a) event =
    Esp_camera_fb_get bool
  | Esp_camera_fb_return
  | Dl_matrix3du_alloc bool
  | Dl_matrix3du_free
  | Fmt2rgb888 bool
  | Face_detect "'b list option"
  | Free_boxes
  | Aligned_face_alloc bool
  | Aligned_face_align 'b "'a option"
  | Fr_recognize_face 'a 'a c_float
  | Aligned_face_free
  | Lcd_clear
  | Lcd_setCursor nat nat
  | Lcd_print string
  | Serial_println string
  | Serial_printf string int
  | Buzzer bool
  | Delay nat
  | Write_attemptCount c_int
  | Call_sendEmailAlert
  | Smtp_connect bool
  | Send_mail bool
  | Call_sendToThingSpeak c_float c_float int int
  | Wifi_status bool
  | Http_begin thingspeak_url
  | Http_GET int
  | Http_end
  | Sd_open bool
  | Malloc bool
  | File_read
  | File_close
  | Free_buffer

text \<open>
  What the collaborators return in one activation of \<^verbatim>\<open>loop\<close> or of
  \<^verbatim>\<open>loadAuthorizedFace\<close>: one field for each call whose result the firmware reads. A pointer
  result is \<open>True\<close> when it is not \<^verbatim>\<open>NULL\<close>; \<open>face_detect\<close> is \<open>None\<close> for \<^verbatim>\<open>NULL\<close>
  and otherwise the boxes \<^verbatim>\<open>box[0]\<close> to \<^verbatim>\<open>box[len - 1]\<close>; \<open>aligned_face_align\<close> gives the
  aligned face it wrote when it returned a non-zero value and \<open>None\<close> when it returned 0;
  \<open>wifi_connected\<close> is \<^verbatim>\<open>WiFi.status() == WL_CONNECTED\<close>.
\<close>

record ('b, 'a) env =
  esp_camera_fb_get :: bool
  dl_matrix3du_alloc :: bool
  fmt2rgb888 :: bool
  face_detect :: "'b list option"
  aligned_face_alloc :: bool
  aligned_face_align :: "'b \<Rightarrow> 'a option"
  fr_recognize_face :: "'a \<Rightarrow> 'a \<Rightarrow> c_float"
  smtp_connect :: bool
  sendMail :: bool
  wifi_connected :: bool
  http_GET :: int
  sd_open :: bool
  malloc :: bool

section \<open>The helpers\<close>

text \<open>\<^verbatim>\<open>sendEmailAlert\<close>, lines 386 to 416. Filling in the session and the message calls no
  collaborator.\<close>

definition sendEmailAlert :: "('b, 'a) env \<Rightarrow> bool \<times> ('b, 'a) event list" where
  "sendEmailAlert e =
     (if \<not> smtp_connect e then
        (False, [Smtp_connect False, Serial_println ''SMTP connect failed''])
      else if \<not> sendMail e then
        (False, [Smtp_connect True, Send_mail False, Serial_println ''Email send failed''])
      else (True, [Smtp_connect True, Send_mail True]))"

text \<open>\<^verbatim>\<open>sendToThingSpeak\<close>, lines 361 to 384.\<close>

definition sendToThingSpeak ::
  "('b, 'a) env \<Rightarrow> c_float \<Rightarrow> c_float \<Rightarrow> int \<Rightarrow> int \<Rightarrow> ('b, 'a) event list" where
  "sendToThingSpeak e lat lng accessStatus intruderAlert =
     (if \<not> wifi_connected e then
        [Wifi_status False, Serial_println ''WiFi disconnected, skip ThingSpeak'']
      else
        (let url = \<lparr>field1 = lat, field2 = lng, field3 = intruderAlert, field4 = accessStatus\<rparr>;
             httpCode = http_GET e
         in [Wifi_status True, Http_begin url, Http_GET httpCode,
             (if 0 < httpCode then Serial_printf ''ThingSpeak update code: %d'' httpCode
              else Serial_printf ''ThingSpeak failed: %s'' httpCode),
             Http_end]))"

text \<open>\<^verbatim>\<open>loadAuthorizedFace\<close>, lines 288 to 359.\<close>

definition loadAuthorizedFace ::
  "('b, 'a) env \<Rightarrow> 'a globals \<Rightarrow> bool \<times> 'a globals \<times> ('b, 'a) event list" where
  "loadAuthorizedFace e g =
     (if \<not> sd_open e then
        (False, g, [Sd_open False, Serial_println ''Failed to open /faces/user1.jpg''])
      else if \<not> malloc e then
        (False, g, [Sd_open True, Malloc False, Serial_println ''Memory allocation failed'',
           File_close])
      else if \<not> dl_matrix3du_alloc e then
        (False, g, [Sd_open True, Malloc True, File_read, File_close, Dl_matrix3du_alloc False,
           Serial_println ''Image allocation failed'', Free_buffer])
      else if \<not> fmt2rgb888 e then
        (False, g, [Sd_open True, Malloc True, File_read, File_close, Dl_matrix3du_alloc True,
           Fmt2rgb888 False, Serial_println ''JPEG decode failed'', Dl_matrix3du_free,
           Free_buffer])
      else
        (let pre = [Sd_open True, Malloc True, File_read, File_close, Dl_matrix3du_alloc True,
               Fmt2rgb888 True, Free_buffer, Face_detect (face_detect e)]
         in case face_detect e of
              None \<Rightarrow>
                (False, g, pre @ [Serial_println ''No face detected in user1.jpg'',
                   Dl_matrix3du_free])
            | Some [] \<Rightarrow>
                (False, g, pre @ [Serial_println ''No face detected in user1.jpg'',
                   Dl_matrix3du_free, Free_boxes])
            | Some (box0 # rest) \<Rightarrow>
                if \<not> aligned_face_alloc e then
                  (False, g\<lparr>authorized_face := None\<rparr>,
                   pre @ [Aligned_face_alloc False, Serial_println ''Face alignment failed'',
                     Dl_matrix3du_free, Free_boxes])
                else
                  (case aligned_face_align e box0 of
                     None \<Rightarrow>
                       (False, g\<lparr>authorized_face := None\<rparr>,
                        pre @ [Aligned_face_alloc True, Aligned_face_align box0 None,
                          Serial_println ''Face alignment failed'', Dl_matrix3du_free,
                          Free_boxes, Aligned_face_free])
                   | Some a \<Rightarrow>
                       (True, g\<lparr>authorized_face := Some a\<rparr>,
                        pre @ [Aligned_face_alloc True, Aligned_face_align box0 (Some a),
                          Dl_matrix3du_free, Free_boxes,
                          Serial_println ''Authorized face loaded'']))))"

section \<open>One cycle\<close>

text \<open>The \<^verbatim>\<open>for\<close> loop of lines 231 to 239 over \<^verbatim>\<open>net_boxes->box\<close>; the result is
  \<^verbatim>\<open>face_recognized\<close>, which the loop sets only at its \<^verbatim>\<open>break\<close>.\<close>

fun scan_boxes :: "('b, 'a) env \<Rightarrow> 'a \<Rightarrow> 'b list \<Rightarrow> bool \<times> ('b, 'a) event list" where
  "scan_boxes e ref [] = (False, [])"
| "scan_boxes e ref (b # bs) =
     (case aligned_face_align e b of
        None \<Rightarrow>
          (case scan_boxes e ref bs of (r, t) \<Rightarrow> (r, Aligned_face_align b None # t))
      | Some a \<Rightarrow>
          (let score = fr_recognize_face e a ref in
           if float_gt score MATCH_THRESHOLD then
             (True, [Aligned_face_align b (Some a), Fr_recognize_face a ref score])
           else
             (case scan_boxes e ref bs of (r, t) \<Rightarrow>
                (r, Aligned_face_align b (Some a) # Fr_recognize_face a ref score # t))))"

text \<open>Lines 223 to 242: \<^verbatim>\<open>face_detected\<close> and the guarded scan.\<close>

definition face_detected :: "'b list option \<Rightarrow> bool" where
  "face_detected net_boxes = (case net_boxes of None \<Rightarrow> False | Some bs \<Rightarrow> 0 < length bs)"

definition match_faces ::
  "('b, 'a) env \<Rightarrow> 'a globals \<Rightarrow> 'b list option \<Rightarrow> bool \<times> ('b, 'a) event list" where
  "match_faces e g net_boxes =
     (if face_detected net_boxes then
        (case authorized_face g of
           None \<Rightarrow> (False, [])
         | Some ref \<Rightarrow>
             if aligned_face_alloc e then
               (case scan_boxes e ref (case net_boxes of None \<Rightarrow> [] | Some bs \<Rightarrow> bs) of
                  (r, t) \<Rightarrow> (r, Aligned_face_alloc True # t @ [Aligned_face_free]))
             else (False, [Aligned_face_alloc False]))
      else (False, []))"

text \<open>Lines 244 to 271: the result is \<^verbatim>\<open>accessStatus\<close>, \<^verbatim>\<open>intruderAlert\<close>, the new
  \<^verbatim>\<open>attemptCount\<close> and the calls. The result of \<^verbatim>\<open>sendEmailAlert\<close> is discarded.\<close>

definition decide ::
  "('b, 'a) env \<Rightarrow> c_int \<Rightarrow> bool \<Rightarrow> int \<times> int \<times> c_int \<times> ('b, 'a) event list" where
  "decide e count face_recognized =
     (if face_recognized then
        (1, 0, 0,
         [Lcd_clear, Lcd_setCursor 0 0, Lcd_print ''Access Granted'', Write_attemptCount 0,
          Serial_println ''Face recognized!''])
      else
        (let count1 = count + 1;
             t = [Lcd_clear, Lcd_setCursor 0 0, Lcd_print ''Access Denied'', Lcd_setCursor 0 1,
                  Lcd_print ''Not Allowed!'', Buzzer True, Delay 500, Buzzer False,
                  Write_attemptCount count1,
                  Serial_printf ''No match - attempt: %d'' (sint count1)]
         in if MAX_ATTEMPTS \<le>s count1 then
              (0, 1, 0, t @ Call_sendEmailAlert # snd (sendEmailAlert e) @ [Write_attemptCount 0])
            else (0, 0, count1, t)))"

text \<open>
  How an activation of \<^verbatim>\<open>loop\<close> ended: at the \<^verbatim>\<open>return\<close> of line 209, at that of line
  217, or at line 285 with the final values of its locals \<^verbatim>\<open>face_recognized\<close>,
  \<^verbatim>\<open>accessStatus\<close> and \<^verbatim>\<open>intruderAlert\<close>.
\<close>

datatype outcome = Capture_failed | Alloc_failed | Decided bool int int

text \<open>\<^verbatim>\<open>loop\<close>, lines 204 to 285.\<close>

definition loop :: "('b, 'a) env \<Rightarrow> 'a globals \<Rightarrow> outcome \<times> 'a globals \<times> ('b, 'a) event list" where
  "loop e g =
     (if \<not> esp_camera_fb_get e then
        (Capture_failed, g,
         [Esp_camera_fb_get False, Serial_println ''Camera capture failed'', Delay 500])
      else if \<not> dl_matrix3du_alloc e then
        (Alloc_failed, g,
         [Esp_camera_fb_get True, Dl_matrix3du_alloc False,
          Serial_println ''dl_matrix3du_alloc failed'', Esp_camera_fb_return, Delay 200])
      else
        (let net_boxes = face_detect e in
         case match_faces e g net_boxes of (face_recognized, t1) \<Rightarrow>
         case decide e (attemptCount g) face_recognized of
           (accessStatus, intruderAlert, count, t2) \<Rightarrow>
             (Decided face_recognized accessStatus intruderAlert,
              g\<lparr>attemptCount := count\<rparr>,
              [Esp_camera_fb_get True, Dl_matrix3du_alloc True, Fmt2rgb888 (fmt2rgb888 e),
               Face_detect net_boxes]
              @ t1 @ t2
              @ Call_sendToThingSpeak dummyLat dummyLng accessStatus intruderAlert
              # sendToThingSpeak e dummyLat dummyLng accessStatus intruderAlert
              @ (case net_boxes of None \<Rightarrow> [] | Some bs \<Rightarrow> [Free_boxes])
              @ [Dl_matrix3du_free, Esp_camera_fb_return, Delay 2000])))"

text \<open>
  The Arduino runtime calls \<^verbatim>\<open>loop\<close> again and again. The first cycles of a run are
  given by the list of what the collaborators return in each; the result lists, cycle by
  cycle, how the cycle ended, the state it left and the calls it made.
\<close>

fun run_cycles ::
  "('b, 'a) env list \<Rightarrow> 'a globals \<Rightarrow> (outcome \<times> 'a globals \<times> ('b, 'a) event list) list" where
  "run_cycles [] g = []"
| "run_cycles (e # es) g =
     (case loop e g of (oc, g', t) \<Rightarrow> (oc, g', t) # run_cycles es g')"

section \<open>The vocabulary of the specification\<close>

text \<open>
  The AccessDecision of a cycle is Granted when the cycle reaches line 244 with
  \<^verbatim>\<open>face_recognized\<close> true and Denied when it reaches it with \<^verbatim>\<open>face_recognized\<close> false; a
  cycle that returned early has no decision.
\<close>

definition granted :: "outcome \<Rightarrow> bool" where
  "granted oc = (case oc of Decided face_recognized a i \<Rightarrow> face_recognized | _ \<Rightarrow> False)"

definition denied :: "outcome \<Rightarrow> bool" where
  "denied oc = (case oc of Decided face_recognized a i \<Rightarrow> \<not> face_recognized | _ \<Rightarrow> False)"

definition skipped :: "outcome \<Rightarrow> bool" where
  "skipped oc = (case oc of Decided face_recognized a i \<Rightarrow> False | _ \<Rightarrow> True)"

text \<open>The kinds of call the claims speak about.\<close>

definition is_matching :: "('b, 'a) event \<Rightarrow> bool" where
  "is_matching ev =
     (case ev of Aligned_face_align b r \<Rightarrow> True | Fr_recognize_face a ref s \<Rightarrow> True
      | _ \<Rightarrow> False)"

definition is_alert :: "('b, 'a) event \<Rightarrow> bool" where
  "is_alert ev = (case ev of Call_sendEmailAlert \<Rightarrow> True | _ \<Rightarrow> False)"

definition is_telemetry :: "('b, 'a) event \<Rightarrow> bool" where
  "is_telemetry ev = (case ev of Call_sendToThingSpeak lat lng a i \<Rightarrow> True | _ \<Rightarrow> False)"

definition is_http :: "('b, 'a) event \<Rightarrow> bool" where
  "is_http ev =
     (case ev of Http_begin u \<Rightarrow> True | Http_GET c \<Rightarrow> True | Http_end \<Rightarrow> True | _ \<Rightarrow> False)"

definition is_delay :: "('b, 'a) event \<Rightarrow> bool" where
  "is_delay ev = (case ev of Delay ms \<Rightarrow> True | _ \<Rightarrow> False)"

definition counter_writes :: "('b, 'a) event list \<Rightarrow> c_int list" where
  "counter_writes t = concat (map (\<lambda>ev. case ev of Write_attemptCount v \<Rightarrow> [v] | _ \<Rightarrow> []) t)"

text \<open>
  The scan as section 4.3 of the specification words it. A candidate qualifies when it
  aligns and its similarity to the reference exceeds the threshold; the candidates looked at
  are those up to and including the first that qualifies; each of them is aligned, and
  scored when the alignment succeeded.
\<close>

definition qualifies :: "('b, 'a) env \<Rightarrow> 'a \<Rightarrow> 'b \<Rightarrow> bool" where
  "qualifies e ref b =
     (case aligned_face_align e b of None \<Rightarrow> False
      | Some a \<Rightarrow> float_gt (fr_recognize_face e a ref) MATCH_THRESHOLD)"

definition scanned :: "('b, 'a) env \<Rightarrow> 'a \<Rightarrow> 'b list \<Rightarrow> 'b list" where
  "scanned e ref bs =
     takeWhile (\<lambda>b. \<not> qualifies e ref b) bs @ take 1 (dropWhile (\<lambda>b. \<not> qualifies e ref b) bs)"

definition candidate_calls :: "('b, 'a) env \<Rightarrow> 'a \<Rightarrow> 'b \<Rightarrow> ('b, 'a) event list" where
  "candidate_calls e ref b =
     (case aligned_face_align e b of None \<Rightarrow> [Aligned_face_align b None]
      | Some a \<Rightarrow>
          [Aligned_face_align b (Some a), Fr_recognize_face a ref (fr_recognize_face e a ref)])"

section \<open>Concrete activations\<close>

text \<open>
  A frame with two faces, \<open>''A''\<close> and \<open>''B''\<close>, detected in this order. Both align;
  against any reference the first scores 0.55 and the second 0.9. Every allocation
  succeeds, the network is up, the SMTP server accepts the connection and refuses the mail.
  The same record, read by \<^verbatim>\<open>loadAuthorizedFace\<close>, is a card whose image holds these two
  faces. The other activations used below change one field of it.
\<close>

definition env_AB :: "(string, string) env" where
  "env_AB =
     \<lparr>esp_camera_fb_get = True, dl_matrix3du_alloc = True, fmt2rgb888 = True,
      face_detect = Some [''A'', ''B''], aligned_face_alloc = True,
      aligned_face_align = (\<lambda>b. Some b),
      fr_recognize_face = (\<lambda>a ref. if a = ''A'' then Finite (55 / 100) else Finite (9 / 10)),
      smtp_connect = True, sendMail = False, wifi_connected = True, http_GET = 200,
      sd_open = True, malloc = True\<rparr>"

text \<open>The state of a device that enrolled the face \<open>''user1''\<close> and has counted two
  denials.\<close>

definition g_enrolled :: "string globals" where
  "g_enrolled = \<lparr>authorized_face = Some ''user1'', attemptCount = 2\<rparr>"

section \<open>The scan\<close>

text \<open>The loop body, as one equation in the vocabulary of the specification.\<close>

lemmas kinds = is_matching_def is_alert_def is_telemetry_def is_http_def is_delay_def

lemma scan_Cons:
  "scan_boxes e ref (b # bs) =
     (if qualifies e ref b then (True, candidate_calls e ref b)
      else (fst (scan_boxes e ref bs), candidate_calls e ref b @ snd (scan_boxes e ref bs)))"
  by (simp add: qualifies_def candidate_calls_def Let_def split_beta split: option.splits)

lemma candidate_calls_kinds:
  "ev \<in> set (candidate_calls e ref b) \<Longrightarrow>
     ev = Aligned_face_align b (aligned_face_align e b) \<or>
     (\<exists>a. aligned_face_align e b = Some a \<and> ev = Fr_recognize_face a ref (fr_recognize_face e a ref))"
  by (auto simp: candidate_calls_def split: option.splits)

lemma candidate_calls_qualifies:
  "qualifies e ref b \<Longrightarrow>
     \<exists>a. candidate_calls e ref b =
       [Aligned_face_align b (Some a), Fr_recognize_face a ref (fr_recognize_face e a ref)] \<and>
       float_gt (fr_recognize_face e a ref) MATCH_THRESHOLD"
  by (auto simp: candidate_calls_def qualifies_def split: option.splits)

text \<open>The scan recognises a face exactly when some candidate qualifies, and its calls are
  those of the candidates up to the first that does.\<close>

lemma scan_fst: "fst (scan_boxes e ref bs) = (\<exists>b\<in>set bs. qualifies e ref b)"
  by (induction bs) (simp_all add: scan_Cons del: scan_boxes.simps(2))

lemma scan_snd: "snd (scan_boxes e ref bs) = concat (map (candidate_calls e ref) (scanned e ref bs))"
  by (induction bs) (simp_all add: scan_Cons scanned_def del: scan_boxes.simps(2))

lemma scan_kinds:
  "ev \<in> set (snd (scan_boxes e ref bs)) \<Longrightarrow>
     (\<exists>b r. ev = Aligned_face_align b r) \<or> (\<exists>a s. ev = Fr_recognize_face a ref s)"
  by (induction bs)
     (auto simp: scan_Cons simp del: scan_boxes.simps(2) dest: candidate_calls_kinds split: if_splits)

lemma scan_filter_matching:
  "filter is_matching (snd (scan_boxes e ref bs)) = snd (scan_boxes e ref bs)"
  by (rule filter_True) (auto dest: scan_kinds simp: is_matching_def)

lemma scan_filter_other:
  "filter is_alert (snd (scan_boxes e ref bs)) = []"
  "filter is_telemetry (snd (scan_boxes e ref bs)) = []"
  "filter is_http (snd (scan_boxes e ref bs)) = []"
  "filter is_delay (snd (scan_boxes e ref bs)) = []"
  by (auto simp: filter_empty_conv kinds dest!: scan_kinds)

lemma counter_writes_append: "counter_writes (xs @ ys) = counter_writes xs @ counter_writes ys"
  by (simp add: counter_writes_def)

lemma counter_writes_Cons:
  "counter_writes (ev # t) = (case ev of Write_attemptCount v \<Rightarrow> [v] | _ \<Rightarrow> []) @ counter_writes t"
  by (simp add: counter_writes_def)

lemma counter_writes_Nil: "counter_writes [] = []"
  by (simp add: counter_writes_def)

lemma scan_counter_writes: "counter_writes (snd (scan_boxes e ref bs)) = []"
  by (auto simp: counter_writes_def dest!: scan_kinds)

lemma scan_recognize_sound:
  "Fr_recognize_face a r s \<in> set (snd (scan_boxes e ref bs)) \<Longrightarrow>
     s = fr_recognize_face e a ref \<and> (\<exists>b\<in>set bs. aligned_face_align e b = Some a)"
  by (induction bs)
     (auto simp: scan_Cons simp del: scan_boxes.simps(2) dest: candidate_calls_kinds split: if_splits)

lemma scan_granted_complete:
  "fst (scan_boxes e ref bs) \<Longrightarrow>
     \<exists>b a. Aligned_face_align b (Some a) \<in> set (snd (scan_boxes e ref bs)) \<and>
        Fr_recognize_face a ref (fr_recognize_face e a ref) \<in> set (snd (scan_boxes e ref bs)) \<and>
        float_gt (fr_recognize_face e a ref) MATCH_THRESHOLD"
proof (induction bs)
  case Nil
  then show ?case by simp
next
  case (Cons b bs)
  show ?case
  proof (cases "qualifies e ref b")
    case True
    from candidate_calls_qualifies [OF this] obtain a where
      "candidate_calls e ref b =
         [Aligned_face_align b (Some a), Fr_recognize_face a ref (fr_recognize_face e a ref)]"
      "float_gt (fr_recognize_face e a ref) MATCH_THRESHOLD"
      by blast
    with True have
      "Aligned_face_align b (Some a) \<in> set (snd (scan_boxes e ref (b # bs))) \<and>
       Fr_recognize_face a ref (fr_recognize_face e a ref) \<in> set (snd (scan_boxes e ref (b # bs))) \<and>
       float_gt (fr_recognize_face e a ref) MATCH_THRESHOLD"
      by (simp add: scan_Cons del: scan_boxes.simps(2))
    then show ?thesis by blast
  next
    case False
    with Cons.prems have "fst (scan_boxes e ref bs)"
      by (simp add: scan_Cons del: scan_boxes.simps(2))
    from Cons.IH [OF this] obtain b' a where
      "Aligned_face_align b' (Some a) \<in> set (snd (scan_boxes e ref bs))"
      "Fr_recognize_face a ref (fr_recognize_face e a ref) \<in> set (snd (scan_boxes e ref bs))"
      "float_gt (fr_recognize_face e a ref) MATCH_THRESHOLD"
      by blast
    with False have
      "Aligned_face_align b' (Some a) \<in> set (snd (scan_boxes e ref (b # bs))) \<and>
       Fr_recognize_face a ref (fr_recognize_face e a ref) \<in> set (snd (scan_boxes e ref (b # bs))) \<and>
       float_gt (fr_recognize_face e a ref) MATCH_THRESHOLD"
      by (simp add: scan_Cons del: scan_boxes.simps(2))
    then show ?thesis by blast
  qed
qed

lemma scan_granted_events:
  "fst (scan_boxes e ref bs) \<longleftrightarrow>
     (\<exists>b a s. Aligned_face_align b (Some a) \<in> set (snd (scan_boxes e ref bs)) \<and>
        Fr_recognize_face a ref s \<in> set (snd (scan_boxes e ref bs)) \<and> float_gt s MATCH_THRESHOLD)"
proof
  assume "fst (scan_boxes e ref bs)"
  from scan_granted_complete [OF this] show "\<exists>b a s.
     Aligned_face_align b (Some a) \<in> set (snd (scan_boxes e ref bs)) \<and>
     Fr_recognize_face a ref s \<in> set (snd (scan_boxes e ref bs)) \<and> float_gt s MATCH_THRESHOLD"
    by blast
next
  assume "\<exists>b a s. Aligned_face_align b (Some a) \<in> set (snd (scan_boxes e ref bs)) \<and>
     Fr_recognize_face a ref s \<in> set (snd (scan_boxes e ref bs)) \<and> float_gt s MATCH_THRESHOLD"
  then obtain a s where "Fr_recognize_face a ref s \<in> set (snd (scan_boxes e ref bs))"
    and gt: "float_gt s MATCH_THRESHOLD"
    by blast
  from scan_recognize_sound [OF this(1)] obtain b where
    "s = fr_recognize_face e a ref" "b \<in> set bs" "aligned_face_align e b = Some a"
    by blast
  with gt have "b \<in> set bs \<and> qualifies e ref b"
    by (simp add: qualifies_def)
  then show "fst (scan_boxes e ref bs)"
    unfolding scan_fst by blast
qed

lemma scan_boxes_smtp:
  "scan_boxes (e\<lparr>smtp_connect := c, sendMail := m\<rparr>) ref bs = scan_boxes e ref bs"
  by (induction bs) (simp_all add: Let_def split: option.splits)

section \<open>The blocks of a cycle\<close>

lemma sendEmailAlert_filter:
  "filter is_matching (snd (sendEmailAlert e)) = []"
  "filter is_alert (snd (sendEmailAlert e)) = []"
  "filter is_telemetry (snd (sendEmailAlert e)) = []"
  "filter is_http (snd (sendEmailAlert e)) = []"
  "counter_writes (snd (sendEmailAlert e)) = []"
  by (simp_all add: sendEmailAlert_def kinds counter_writes_def)

lemma sendEmailAlert_result:
  "fst (sendEmailAlert (e\<lparr>smtp_connect := c, sendMail := m\<rparr>)) = (c \<and> m)"
  by (simp add: sendEmailAlert_def)

lemma sendToThingSpeak_filter:
  "filter is_matching (sendToThingSpeak e lat lng a i) = []"
  "filter is_alert (sendToThingSpeak e lat lng a i) = []"
  "filter is_telemetry (sendToThingSpeak e lat lng a i) = []"
  "filter is_delay (sendToThingSpeak e lat lng a i) = []"
  "counter_writes (sendToThingSpeak e lat lng a i) = []"
  by (simp_all add: sendToThingSpeak_def kinds counter_writes_def Let_def)

lemma match_faces_fst:
  "fst (match_faces e g nb) \<longleftrightarrow>
     (\<exists>ref bs. authorized_face g = Some ref \<and> nb = Some bs \<and> bs \<noteq> [] \<and> aligned_face_alloc e \<and>
        fst (scan_boxes e ref bs))"
  by (auto simp: match_faces_def face_detected_def split_beta split: option.splits)

lemma match_faces_matching:
  "filter is_matching (snd (match_faces e g nb)) =
     (case authorized_face g of None \<Rightarrow> []
      | Some ref \<Rightarrow>
          (case nb of None \<Rightarrow> []
           | Some bs \<Rightarrow> if aligned_face_alloc e then snd (scan_boxes e ref bs) else []))"
  by (simp add: match_faces_def face_detected_def split_beta is_matching_def
        scan_filter_matching split: option.splits)

lemma match_faces_filter:
  "filter is_alert (snd (match_faces e g nb)) = []"
  "filter is_telemetry (snd (match_faces e g nb)) = []"
  "filter is_http (snd (match_faces e g nb)) = []"
  "filter is_delay (snd (match_faces e g nb)) = []"
  "counter_writes (snd (match_faces e g nb)) = []"
  by (simp_all add: match_faces_def split_beta scan_filter_other scan_counter_writes
        counter_writes_append counter_writes_Cons counter_writes_Nil
        is_alert_def is_telemetry_def is_http_def is_delay_def split: option.splits)

lemma match_faces_smtp:
  "match_faces (e\<lparr>smtp_connect := c, sendMail := m\<rparr>) g nb = match_faces e g nb"
  by (simp add: match_faces_def scan_boxes_smtp split: option.splits)

lemma decide_fst:
  "fst (decide e c fr) = (if fr then 1 else 0)"
  "fst (snd (decide e c fr)) = (if \<not> fr \<and> MAX_ATTEMPTS \<le>s c + 1 then 1 else 0)"
  "fst (snd (snd (decide e c fr))) = (if fr \<or> MAX_ATTEMPTS \<le>s c + 1 then 0 else c + 1)"
  by (simp_all add: decide_def Let_def)

lemma decide_filter:
  "filter is_matching (snd (snd (snd (decide e c fr)))) = []"
  "filter is_alert (snd (snd (snd (decide e c fr)))) =
     (if \<not> fr \<and> MAX_ATTEMPTS \<le>s c + 1 then [Call_sendEmailAlert] else [])"
  "filter is_telemetry (snd (snd (snd (decide e c fr)))) = []"
  "filter is_http (snd (snd (snd (decide e c fr)))) = []"
  "counter_writes (snd (snd (snd (decide e c fr)))) =
     (if fr then [0] else if MAX_ATTEMPTS \<le>s c + 1 then [c + 1, 0] else [c + 1])"
  by (simp_all add: decide_def Let_def sendEmailAlert_filter kinds
        counter_writes_append counter_writes_Cons counter_writes_Nil)

lemma is_alert_iff: "is_alert ev \<longleftrightarrow> ev = Call_sendEmailAlert"
  by (cases ev) (simp_all add: is_alert_def)

lemma mem_filter_alert:
  "Call_sendEmailAlert \<in> set t \<longleftrightarrow> filter is_alert t \<noteq> []"
  by (auto simp: filter_empty_conv is_alert_iff)

lemma mem_filter_matching:
  "Aligned_face_align b r \<in> set t \<longleftrightarrow> Aligned_face_align b r \<in> set (filter is_matching t)"
  "Fr_recognize_face a ref s \<in> set t \<longleftrightarrow> Fr_recognize_face a ref s \<in> set (filter is_matching t)"
  by (simp_all add: is_matching_def)

section \<open>The cycle\<close>

text \<open>The two early returns, and the cycle that reaches line 285.\<close>

lemma loop_capture_failed:
  "\<not> esp_camera_fb_get e \<Longrightarrow>
     loop e g = (Capture_failed, g,
       [Esp_camera_fb_get False, Serial_println ''Camera capture failed'', Delay 500])"
  by (simp add: loop_def)

lemma loop_alloc_failed:
  "esp_camera_fb_get e \<Longrightarrow> \<not> dl_matrix3du_alloc e \<Longrightarrow>
     loop e g = (Alloc_failed, g,
       [Esp_camera_fb_get True, Dl_matrix3du_alloc False,
        Serial_println ''dl_matrix3du_alloc failed'', Esp_camera_fb_return, Delay 200])"
  by (simp add: loop_def)

lemma loop_decided:
  assumes "esp_camera_fb_get e" and "dl_matrix3du_alloc e"
  shows "loop e g =
     (Decided (fst (match_faces e g (face_detect e)))
        (fst (decide e (attemptCount g) (fst (match_faces e g (face_detect e)))))
        (fst (snd (decide e (attemptCount g) (fst (match_faces e g (face_detect e)))))),
      g\<lparr>attemptCount :=
        fst (snd (snd (decide e (attemptCount g) (fst (match_faces e g (face_detect e))))))\<rparr>,
      [Esp_camera_fb_get True, Dl_matrix3du_alloc True, Fmt2rgb888 (fmt2rgb888 e),
       Face_detect (face_detect e)]
      @ snd (match_faces e g (face_detect e))
      @ snd (snd (snd (decide e (attemptCount g) (fst (match_faces e g (face_detect e))))))
      @ Call_sendToThingSpeak dummyLat dummyLng
          (fst (decide e (attemptCount g) (fst (match_faces e g (face_detect e)))))
          (fst (snd (decide e (attemptCount g) (fst (match_faces e g (face_detect e))))))
      # sendToThingSpeak e dummyLat dummyLng
          (fst (decide e (attemptCount g) (fst (match_faces e g (face_detect e)))))
          (fst (snd (decide e (attemptCount g) (fst (match_faces e g (face_detect e))))))
      @ (case face_detect e of None \<Rightarrow> [] | Some bs \<Rightarrow> [Free_boxes])
      @ [Dl_matrix3du_free, Esp_camera_fb_return, Delay 2000])"
  using assms by (simp add: loop_def Let_def split_beta)

lemma loop_decided_proj:
  assumes "esp_camera_fb_get e" and "dl_matrix3du_alloc e"
  shows "fst (loop e g) =
       Decided (fst (match_faces e g (face_detect e)))
         (if fst (match_faces e g (face_detect e)) then 1 else 0)
         (if \<not> fst (match_faces e g (face_detect e)) \<and> MAX_ATTEMPTS \<le>s attemptCount g + 1
          then 1 else 0)"
    and "attemptCount (fst (snd (loop e g))) =
       (if fst (match_faces e g (face_detect e)) \<or> MAX_ATTEMPTS \<le>s attemptCount g + 1 then 0
        else attemptCount g + 1)"
    and "authorized_face (fst (snd (loop e g))) = authorized_face g"
    and "filter is_matching (snd (snd (loop e g))) =
       filter is_matching (snd (match_faces e g (face_detect e)))"
    and "filter is_alert (snd (snd (loop e g))) =
       (if \<not> fst (match_faces e g (face_detect e)) \<and> MAX_ATTEMPTS \<le>s attemptCount g + 1
        then [Call_sendEmailAlert] else [])"
    and "filter is_telemetry (snd (snd (loop e g))) =
       [Call_sendToThingSpeak dummyLat dummyLng
          (if fst (match_faces e g (face_detect e)) then 1 else 0)
          (if \<not> fst (match_faces e g (face_detect e)) \<and> MAX_ATTEMPTS \<le>s attemptCount g + 1
           then 1 else 0)]"
    and "counter_writes (snd (snd (loop e g))) =
       (if fst (match_faces e g (face_detect e)) then [0]
        else if MAX_ATTEMPTS \<le>s attemptCount g + 1 then [attemptCount g + 1, 0]
        else [attemptCount g + 1])"
    and "last (snd (snd (loop e g))) = Delay 2000"
  using assms
  by (simp_all add: loop_decided decide_fst decide_filter match_faces_filter
        sendToThingSpeak_filter kinds counter_writes_append counter_writes_Cons counter_writes_Nil
        split: option.splits)

lemma loop_state:
  assumes "esp_camera_fb_get e" and "dl_matrix3du_alloc e"
  shows "fst (snd (loop e g)) =
     g\<lparr>attemptCount :=
       (if fst (match_faces e g (face_detect e)) \<or> MAX_ATTEMPTS \<le>s attemptCount g + 1 then 0
        else attemptCount g + 1)\<rparr>"
  by (simp add: loop_decided [OF assms] decide_fst)

lemma loop_http:
  "filter is_http (snd (snd (loop e g))) =
     (if esp_camera_fb_get e \<and> dl_matrix3du_alloc e \<and> wifi_connected e then
        filter is_http (sendToThingSpeak e dummyLat dummyLng
          (fst (decide e (attemptCount g) (fst (match_faces e g (face_detect e)))))
          (fst (snd (decide e (attemptCount g) (fst (match_faces e g (face_detect e)))))))
      else [])"
  by (cases "esp_camera_fb_get e"; cases "dl_matrix3du_alloc e")
     (simp_all add: loop_decided loop_capture_failed loop_alloc_failed decide_filter
        match_faces_filter is_http_def sendToThingSpeak_def split: option.splits)

lemma loop_outcome_cases:
  "fst (loop e g) = Capture_failed \<longleftrightarrow> \<not> esp_camera_fb_get e"
  "fst (loop e g) = Alloc_failed \<longleftrightarrow> esp_camera_fb_get e \<and> \<not> dl_matrix3du_alloc e"
  "skipped (fst (loop e g)) \<longleftrightarrow> \<not> (esp_camera_fb_get e \<and> dl_matrix3du_alloc e)"
  by (cases "esp_camera_fb_get e"; cases "dl_matrix3du_alloc e";
      simp add: loop_decided_proj loop_capture_failed loop_alloc_failed skipped_def)+

lemma loop_Decided_reached:
  "loop e g = (Decided fr a i, g', t) \<Longrightarrow> esp_camera_fb_get e \<and> dl_matrix3du_alloc e"
  by (cases "esp_camera_fb_get e"; cases "dl_matrix3du_alloc e")
     (simp_all add: loop_capture_failed loop_alloc_failed)

lemma loop_smtp_irrelevant:
  "fst (snd (loop (e\<lparr>smtp_connect := c, sendMail := m\<rparr>) g)) = fst (snd (loop e g))"
  by (simp add: loop_def Let_def split_beta match_faces_smtp decide_fst)

text \<open>Across cycles: the counter stays among 0, 1 and 2 at the end of every cycle, and a
  missing reference stays missing.\<close>

lemma run_cycles_Cons:
  "run_cycles (e # es) g =
     (fst (loop e g), fst (snd (loop e g)), snd (snd (loop e g))) #
     run_cycles es (fst (snd (loop e g)))"
  by (simp add: split_beta)

lemma loop_counter_step:
  assumes "loop e g = (oc, g', t)" and "attemptCount g \<in> {0, 1, 2}"
  shows "attemptCount g' \<in> {0, 1, 2} \<and> set (counter_writes t) \<subseteq> {0, 1, 2, 3} \<and>
         (3 \<in> set (counter_writes t) \<longrightarrow> counter_writes t = [3, 0] \<and> attemptCount g' = 0)"
proof (cases "esp_camera_fb_get e \<and> dl_matrix3du_alloc e")
  case True
  then have ok: "esp_camera_fb_get e" "dl_matrix3du_alloc e"
    by simp_all
  from assms(1) have g': "g' = fst (snd (loop e g))" and t: "t = snd (snd (loop e g))"
    by simp_all
  from assms(2) show ?thesis
    unfolding g' t
    by (auto simp: loop_decided_proj [OF ok] MAX_ATTEMPTS_def)
next
  case False
  with assms show ?thesis
    by (cases "esp_camera_fb_get e")
       (auto simp: loop_capture_failed loop_alloc_failed counter_writes_def)
qed

lemma run_cycles_counter:
  "attemptCount g \<in> {0, 1, 2} \<Longrightarrow> (oc, g', t) \<in> set (run_cycles es g) \<Longrightarrow>
     attemptCount g' \<in> {0, 1, 2} \<and> set (counter_writes t) \<subseteq> {0, 1, 2, 3} \<and>
     (3 \<in> set (counter_writes t) \<longrightarrow> counter_writes t = [3, 0] \<and> attemptCount g' = 0)"
proof (induction es arbitrary: g)
  case Nil
  then show ?case by simp
next
  case (Cons e es)
  obtain oc1 g1 t1 where l: "loop e g = (oc1, g1, t1)"
    by (cases "loop e g") auto
  from loop_counter_step [OF l Cons.prems(1)] have
    step: "attemptCount g1 \<in> {0, 1, 2} \<and> set (counter_writes t1) \<subseteq> {0, 1, 2, 3} \<and>
       (3 \<in> set (counter_writes t1) \<longrightarrow> counter_writes t1 = [3, 0] \<and> attemptCount g1 = 0)" .
  from Cons.prems(2) l have "(oc, g', t) = (oc1, g1, t1) \<or> (oc, g', t) \<in> set (run_cycles es g1)"
    by simp
  then show ?case
  proof
    assume "(oc, g', t) = (oc1, g1, t1)"
    with step show ?thesis by simp
  next
    assume "(oc, g', t) \<in> set (run_cycles es g1)"
    with step Cons.IH [of g1] show ?thesis by blast
  qed
qed

lemma loop_no_reference:
  assumes "loop e g = (oc, g', t)" and "authorized_face g = None"
  shows "(skipped oc \<or> denied oc) \<and> \<not> granted oc \<and> filter is_matching t = [] \<and>
         authorized_face g' = None"
proof (cases "esp_camera_fb_get e \<and> dl_matrix3du_alloc e")
  case True
  then have ok: "esp_camera_fb_get e" "dl_matrix3du_alloc e"
    by simp_all
  from assms(1) have oc: "oc = fst (loop e g)" and g': "g' = fst (snd (loop e g))"
    and t: "t = snd (snd (loop e g))"
    by simp_all
  from assms(2) have "\<not> fst (match_faces e g (face_detect e))"
    by (simp add: match_faces_fst)
  with assms(2) show ?thesis
    unfolding oc g' t
    by (simp add: loop_decided_proj [OF ok] match_faces_matching denied_def granted_def)
next
  case False
  with assms show ?thesis
    by (cases "esp_camera_fb_get e")
       (auto simp: loop_capture_failed loop_alloc_failed skipped_def granted_def is_matching_def)
qed

lemma run_cycles_no_reference:
  "authorized_face g = None \<Longrightarrow> (oc, g', t) \<in> set (run_cycles es g) \<Longrightarrow>
     (skipped oc \<or> denied oc) \<and> \<not> granted oc \<and> filter is_matching t = [] \<and>
     authorized_face g' = None"
proof (induction es arbitrary: g)
  case Nil
  then show ?case by simp
next
  case (Cons e es)
  obtain oc1 g1 t1 where l: "loop e g = (oc1, g1, t1)"
    by (cases "loop e g") auto
  note step = loop_no_reference [OF l Cons.prems(1)]
  from Cons.prems(2) l have "(oc, g', t) = (oc1, g1, t1) \<or> (oc, g', t) \<in> set (run_cycles es g1)"
    by simp
  then show ?case
  proof
    assume "(oc, g', t) = (oc1, g1, t1)"
    with step show ?thesis by simp
  next
    assume "(oc, g', t) \<in> set (run_cycles es g1)"
    with step Cons.IH [of g1] show ?thesis by blast
  qed
qed

section \<open>Enrollment\<close>

lemma loadAuthorizedFace_result:
  "fst (loadAuthorizedFace e g) \<longleftrightarrow>
     sd_open e \<and> malloc e \<and> dl_matrix3du_alloc e \<and> fmt2rgb888 e \<and>
     (\<exists>b bs a. face_detect e = Some (b # bs) \<and> aligned_face_alloc e \<and>
        aligned_face_align e b = Some a)"
  by (auto simp: loadAuthorizedFace_def Let_def split: option.splits list.splits)

lemma loadAuthorizedFace_state:
  "authorized_face (fst (snd (loadAuthorizedFace e g))) =
     (if sd_open e \<and> malloc e \<and> dl_matrix3du_alloc e \<and> fmt2rgb888 e then
        (case face_detect e of None \<Rightarrow> authorized_face g | Some [] \<Rightarrow> authorized_face g
         | Some (b # bs) \<Rightarrow> if aligned_face_alloc e then aligned_face_align e b else None)
      else authorized_face g)"
  "attemptCount (fst (snd (loadAuthorizedFace e g))) = attemptCount g"
  by (auto simp: loadAuthorizedFace_def Let_def split: option.splits list.splits)

lemma loadAuthorizedFace_events:
  "fst (loadAuthorizedFace e g) \<longleftrightarrow>
     Sd_open True \<in> set (snd (snd (loadAuthorizedFace e g))) \<and>
     Malloc True \<in> set (snd (snd (loadAuthorizedFace e g))) \<and>
     Dl_matrix3du_alloc True \<in> set (snd (snd (loadAuthorizedFace e g))) \<and>
     Fmt2rgb888 True \<in> set (snd (snd (loadAuthorizedFace e g))) \<and>
     (\<exists>b bs a. Face_detect (Some (b # bs)) \<in> set (snd (snd (loadAuthorizedFace e g))) \<and>
        Aligned_face_align b (Some a) \<in> set (snd (snd (loadAuthorizedFace e g))))"
  by (auto simp: loadAuthorizedFace_def Let_def split: option.splits list.splits)

section \<open>The claims\<close>

subsection \<open>C1: the first candidate above the threshold grants access\<close>

text \<open>
  Claim C1. Take a cycle that reaches the detection (a frame was captured and the image
  matrix allocated). If the reference face is loaded and the detection result is not empty,
  the decision is Granted if and only if the cycle made an alignment call that succeeded
  and a scoring call on the face it aligned whose score exceeds the threshold (the
  \<^verbatim>\<open>0.6f\<close> of the source, \<^const>\<open>MATCH_THRESHOLD\<close>). The alignment and scoring calls of
  the cycle are exactly those of the candidates in detection order up to and including the
  first that qualifies: a candidate that fails to align is not scored, one that scores at
  most the threshold is passed over, and nothing after the first qualifying candidate is
  looked at. In terms of what the collaborators return, the decision is Granted exactly
  when the working buffer of the scan was allocated and some candidate qualifies. If the
  reference is absent or the detection result is \<^verbatim>\<open>NULL\<close> or empty the decision is
  Denied, and a cycle that is not Granted is Denied. The scenario of the claim, detections
  A then B scoring 0.55 and 0.9, follows the theorem: access is granted, after A was aligned
  and scored and then B.
\<close>

theorem C1_first_match_wins:
  assumes "loop e g = (oc, g', t)" and "esp_camera_fb_get e" and "dl_matrix3du_alloc e"
  shows "(authorized_face g = Some ref \<and> face_detect e = Some bs \<and> bs \<noteq> [] \<longrightarrow>
            (granted oc \<longleftrightarrow>
               (\<exists>b a s. Aligned_face_align b (Some a) \<in> set t \<and> Fr_recognize_face a ref s \<in> set t \<and>
                  float_gt s MATCH_THRESHOLD)) \<and>
            (granted oc \<longleftrightarrow> aligned_face_alloc e \<and> (\<exists>b\<in>set bs. qualifies e ref b)) \<and>
            filter is_matching t =
              (if aligned_face_alloc e
               then concat (map (candidate_calls e ref) (scanned e ref bs)) else [])) \<and>
         (authorized_face g = None \<or> face_detect e = None \<or> face_detect e = Some [] \<longrightarrow>
            denied oc) \<and>
         (denied oc \<longleftrightarrow> \<not> granted oc)"
proof -
  from assms have oc: "oc = fst (loop e g)" and t: "t = snd (snd (loop e g))"
    by simp_all
  have dec: "oc = Decided (fst (match_faces e g (face_detect e)))
         (if fst (match_faces e g (face_detect e)) then 1 else 0)
         (if \<not> fst (match_faces e g (face_detect e)) \<and> MAX_ATTEMPTS \<le>s attemptCount g + 1
          then 1 else 0)"
    unfolding oc using assms(2,3) by (rule loop_decided_proj(1))
  have gr: "granted oc \<longleftrightarrow> fst (match_faces e g (face_detect e))"
    and de: "denied oc \<longleftrightarrow> \<not> fst (match_faces e g (face_detect e))"
    by (simp_all add: dec granted_def denied_def)
  have tm: "filter is_matching t = filter is_matching (snd (match_faces e g (face_detect e)))"
    unfolding t using assms(2,3) by (rule loop_decided_proj(4))
  have absent: "authorized_face g = None \<or> face_detect e = None \<or> face_detect e = Some [] \<longrightarrow>
      denied oc"
    by (auto simp: de match_faces_fst)
  have loaded: "(granted oc \<longleftrightarrow>
               (\<exists>b a s. Aligned_face_align b (Some a) \<in> set t \<and> Fr_recognize_face a ref s \<in> set t \<and>
                  float_gt s MATCH_THRESHOLD)) \<and>
            (granted oc \<longleftrightarrow> aligned_face_alloc e \<and> (\<exists>b\<in>set bs. qualifies e ref b)) \<and>
            filter is_matching t =
              (if aligned_face_alloc e
               then concat (map (candidate_calls e ref) (scanned e ref bs)) else [])"
    if h: "authorized_face g = Some ref" "face_detect e = Some bs" "bs \<noteq> []"
  proof (cases "aligned_face_alloc e")
    case True
    with h have m: "filter is_matching t = snd (scan_boxes e ref bs)"
      by (simp add: tm match_faces_matching)
    from True h have g1: "granted oc \<longleftrightarrow> fst (scan_boxes e ref bs)"
      by (simp add: gr match_faces_fst)
    show ?thesis
      unfolding mem_filter_matching [where t = t] m g1
      using True scan_granted_events [of e ref bs]
      by (simp add: scan_fst scan_snd)
  next
    case False
    with h have m: "filter is_matching t = []"
      by (simp add: tm match_faces_matching)
    from False h have g1: "\<not> granted oc"
      by (simp add: gr match_faces_fst)
    show ?thesis
      unfolding mem_filter_matching [where t = t] m
      using False g1 by simp
  qed
  from loaded absent gr de show ?thesis
    by blast
qed

theorem C1_witness:
  "esp_camera_fb_get env_AB \<and> dl_matrix3du_alloc env_AB \<and>
   authorized_face g_enrolled = Some ''user1'' \<and> face_detect env_AB = Some [''A'', ''B''] \<and>
   granted (fst (loop env_AB g_enrolled)) \<and>
   filter is_matching (snd (snd (loop env_AB g_enrolled))) =
     [Aligned_face_align ''A'' (Some ''A''), Fr_recognize_face ''A'' ''user1'' (Finite (55 / 100)),
      Aligned_face_align ''B'' (Some ''B''), Fr_recognize_face ''B'' ''user1'' (Finite (9 / 10))]"
proof -
  have run: "loop env_AB g_enrolled =
      (fst (loop env_AB g_enrolled), fst (snd (loop env_AB g_enrolled)),
       snd (snd (loop env_AB g_enrolled)))"
    by simp
  have up: "esp_camera_fb_get env_AB" "dl_matrix3du_alloc env_AB" "aligned_face_alloc env_AB"
    by (simp_all add: env_AB_def)
  have inp: "authorized_face g_enrolled = Some ''user1''" "face_detect env_AB = Some [''A'', ''B'']"
    by (simp_all add: env_AB_def g_enrolled_def)
  have q: "\<not> qualifies env_AB ''user1'' ''A''" "qualifies env_AB ''user1'' ''B''"
    by (simp_all add: qualifies_def env_AB_def MATCH_THRESHOLD_def)
  have cc: "candidate_calls env_AB ''user1'' ''A'' =
      [Aligned_face_align ''A'' (Some ''A''), Fr_recognize_face ''A'' ''user1'' (Finite (55 / 100))]"
    "candidate_calls env_AB ''user1'' ''B'' =
      [Aligned_face_align ''B'' (Some ''B''), Fr_recognize_face ''B'' ''user1'' (Finite (9 / 10))]"
    by (simp_all add: candidate_calls_def env_AB_def)
  from C1_first_match_wins [OF run up(1,2), of "''user1''" "[''A'', ''B'']"] inp
  have "(granted (fst (loop env_AB g_enrolled)) \<longleftrightarrow>
           aligned_face_alloc env_AB \<and> (\<exists>b\<in>set [''A'', ''B'']. qualifies env_AB ''user1'' b)) \<and>
        filter is_matching (snd (snd (loop env_AB g_enrolled))) =
          (if aligned_face_alloc env_AB
           then concat (map (candidate_calls env_AB ''user1'') (scanned env_AB ''user1'' [''A'', ''B'']))
           else [])"
    by blast
  with inp up q cc show ?thesis
    by (simp add: scanned_def)
qed

subsection \<open>C2: the attempt counter\<close>

text \<open>
  Claim C2. In a cycle that reaches a decision, for every value of the counter before it:
  on Granted the counter is written once, with 0, and no alert is sent; on Denied the
  counter is incremented (the increment of the 32-bit \<^verbatim>\<open>int\<close>); if the incremented value
  is below \<^verbatim>\<open>MAX_ATTEMPTS\<close> it stays and no alert is sent; if it is at least
  \<^verbatim>\<open>MAX_ATTEMPTS\<close>, \<^verbatim>\<open>sendEmailAlert\<close> is called exactly once and the counter is then
  written with 0. Whatever the SMTP connection and the mail transfer return, that is
  whether \<^verbatim>\<open>sendEmailAlert\<close> returns true or false, the state the cycle leaves is the
  same.
\<close>

theorem C2_attempt_tracker:
  assumes "loop e g = (Decided face_recognized accessStatus intruderAlert, g', t)"
  shows "(face_recognized \<longrightarrow>
            attemptCount g' = 0 \<and> counter_writes t = [0] \<and> filter is_alert t = []) \<and>
         (\<not> face_recognized \<and> \<not> MAX_ATTEMPTS \<le>s attemptCount g + 1 \<longrightarrow>
            attemptCount g' = attemptCount g + 1 \<and> counter_writes t = [attemptCount g + 1] \<and>
            filter is_alert t = []) \<and>
         (\<not> face_recognized \<and> MAX_ATTEMPTS \<le>s attemptCount g + 1 \<longrightarrow>
            attemptCount g' = 0 \<and> counter_writes t = [attemptCount g + 1, 0] \<and>
            filter is_alert t = [Call_sendEmailAlert]) \<and>
         (\<forall>c m. fst (sendEmailAlert (e\<lparr>smtp_connect := c, sendMail := m\<rparr>)) = (c \<and> m) \<and>
            fst (snd (loop (e\<lparr>smtp_connect := c, sendMail := m\<rparr>) g)) = g')"
proof -
  from assms have ok: "esp_camera_fb_get e" "dl_matrix3du_alloc e"
    by (auto dest: loop_Decided_reached)
  from assms have oc: "fst (loop e g) = Decided face_recognized accessStatus intruderAlert"
    and g': "g' = fst (snd (loop e g))" and t: "t = snd (snd (loop e g))"
    by simp_all
  from oc have fr: "face_recognized = fst (match_faces e g (face_detect e))"
    by (simp add: loop_decided_proj(1) [OF ok])
  show ?thesis
    unfolding g' t fr
    by (simp add: loop_decided_proj [OF ok] loop_smtp_irrelevant sendEmailAlert_result)
qed

theorem C2_witness:
  "loop (env_AB\<lparr>face_detect := None\<rparr>) g_enrolled =
     (Decided False 0 1, fst (snd (loop (env_AB\<lparr>face_detect := None\<rparr>) g_enrolled)),
      snd (snd (loop (env_AB\<lparr>face_detect := None\<rparr>) g_enrolled))) \<and>
   attemptCount (fst (snd (loop (env_AB\<lparr>face_detect := None\<rparr>) g_enrolled))) = 0 \<and>
   counter_writes (snd (snd (loop (env_AB\<lparr>face_detect := None\<rparr>) g_enrolled))) = [3, 0] \<and>
   filter is_alert (snd (snd (loop (env_AB\<lparr>face_detect := None\<rparr>) g_enrolled))) =
     [Call_sendEmailAlert]"
proof -
  let ?e = "env_AB\<lparr>face_detect := None\<rparr>"
  have up: "esp_camera_fb_get ?e" "dl_matrix3du_alloc ?e"
    by (simp_all add: env_AB_def)
  have nm: "\<not> fst (match_faces ?e g_enrolled (face_detect ?e))"
    by (simp add: match_faces_fst)
  have run: "loop ?e g_enrolled =
      (Decided False 0 1, fst (snd (loop ?e g_enrolled)), snd (snd (loop ?e g_enrolled)))"
    using nm
    by (simp add: prod_eq_iff loop_decided_proj(1) [OF up] g_enrolled_def MAX_ATTEMPTS_def)
  from C2_attempt_tracker [OF run] have
    "attemptCount (fst (snd (loop ?e g_enrolled))) = 0 \<and>
     counter_writes (snd (snd (loop ?e g_enrolled))) = [3, 0] \<and>
     filter is_alert (snd (snd (loop ?e g_enrolled))) = [Call_sendEmailAlert]"
    by (simp add: g_enrolled_def MAX_ATTEMPTS_def)
  with run show ?thesis
    by (rule conjI)
qed

subsection \<open>C3: the counter stays within its bounds\<close>

text \<open>
  Claim C3. Start the cycles with the counter at 0. Then in every cycle of every run, each
  value written to the counter lies between 0 and \<^verbatim>\<open>MAX_ATTEMPTS\<close>, the counter at the
  end of the cycle is at least 0 and strictly below \<^verbatim>\<open>MAX_ATTEMPTS\<close>, and a cycle that
  writes \<^verbatim>\<open>MAX_ATTEMPTS\<close> writes 0 next and ends with the counter at 0.
\<close>

theorem C3_counter_bounds:
  assumes "attemptCount g = 0"
  shows "\<forall>(oc, g', t) \<in> set (run_cycles es g).
           0 \<le> sint (attemptCount g') \<and> sint (attemptCount g') < sint MAX_ATTEMPTS \<and>
           (\<forall>v \<in> set (counter_writes t). 0 \<le> sint v \<and> sint v \<le> sint MAX_ATTEMPTS) \<and>
           (MAX_ATTEMPTS \<in> set (counter_writes t) \<longrightarrow>
              counter_writes t = [MAX_ATTEMPTS, 0] \<and> attemptCount g' = 0)"
proof (clarify)
  fix oc g' t
  assume "(oc, g', t) \<in> set (run_cycles es g)"
  with assms have r: "attemptCount g' \<in> {0, 1, 2} \<and> set (counter_writes t) \<subseteq> {0, 1, 2, 3} \<and>
     (3 \<in> set (counter_writes t) \<longrightarrow> counter_writes t = [3, 0] \<and> attemptCount g' = 0)"
    by (intro run_cycles_counter [of g oc g' t es]) simp_all
  then have "attemptCount g' \<in> {0, 1, 2}" by simp
  then have a: "0 \<le> sint (attemptCount g') \<and> sint (attemptCount g') < sint MAX_ATTEMPTS"
    by (auto simp: MAX_ATTEMPTS_def)
  have b: "0 \<le> sint v \<and> sint v \<le> sint MAX_ATTEMPTS" if "v \<in> set (counter_writes t)" for v
  proof -
    from r that have "v \<in> {0, 1, 2, 3}" by blast
    then show ?thesis by (auto simp: MAX_ATTEMPTS_def)
  qed
  from r have c: "MAX_ATTEMPTS \<in> set (counter_writes t) \<longrightarrow>
              counter_writes t = [MAX_ATTEMPTS, 0] \<and> attemptCount g' = 0"
    by (simp add: MAX_ATTEMPTS_def)
  from a b c show "0 \<le> sint (attemptCount g') \<and> sint (attemptCount g') < sint MAX_ATTEMPTS \<and>
           (\<forall>v \<in> set (counter_writes t). 0 \<le> sint v \<and> sint v \<le> sint MAX_ATTEMPTS) \<and>
           (MAX_ATTEMPTS \<in> set (counter_writes t) \<longrightarrow>
              counter_writes t = [MAX_ATTEMPTS, 0] \<and> attemptCount g' = 0)"
    by blast
qed

theorem C3_witness:
  "attemptCount (init_globals :: string globals) = 0 \<and>
   map (\<lambda>(oc, g', t). (oc, attemptCount g', counter_writes t))
     (run_cycles [env_AB\<lparr>face_detect := None\<rparr>, env_AB\<lparr>face_detect := None\<rparr>,
        env_AB\<lparr>face_detect := None\<rparr>] init_globals) =
     [(Decided False 0 0, 1, [1]), (Decided False 0 0, 2, [2]), (Decided False 0 1, 0, [3, 0])] \<and>
   sint (attemptCount (fst (snd (last (run_cycles [env_AB\<lparr>face_detect := None\<rparr>,
        env_AB\<lparr>face_detect := None\<rparr>, env_AB\<lparr>face_detect := None\<rparr>] init_globals))))) <
     sint MAX_ATTEMPTS"
proof -
  let ?e = "env_AB\<lparr>face_detect := None\<rparr>"
  have zero: "attemptCount (init_globals :: string globals) = 0"
    by (simp add: init_globals_def)
  have up: "esp_camera_fb_get ?e" "dl_matrix3du_alloc ?e"
    by (simp_all add: env_AB_def)
  have none: "face_detect ?e = None"
    by simp
  have nm: "\<not> fst (match_faces ?e g None)" for g
    by (simp add: match_faces_fst)
  have trace: "map (\<lambda>(oc, g', t). (oc, attemptCount g', counter_writes t))
     (run_cycles [?e, ?e, ?e] init_globals) =
     [(Decided False 0 0, 1, [1]), (Decided False 0 0, 2, [2]), (Decided False 0 1, 0, [3, 0])]"
    by (simp add: run_cycles_Cons loop_decided_proj [OF up] none nm zero MAX_ATTEMPTS_def
          word_sle_eq split_beta del: run_cycles.simps(2))
  have "last (run_cycles [?e, ?e, ?e] init_globals) \<in> set (run_cycles [?e, ?e, ?e] init_globals)"
    by (rule last_in_set) (simp add: split_beta)
  with C3_counter_bounds [OF zero, of "[?e, ?e, ?e]"] have
    "sint (attemptCount (fst (snd (last (run_cycles [?e, ?e, ?e] init_globals))))) <
       sint MAX_ATTEMPTS"
    by (auto simp: split_beta)
  with zero trace show ?thesis
    by (simp only: simp_thms)
qed

subsection \<open>C4: without a reference every decision is Denied\<close>

text \<open>
  Claim C4. If \<^verbatim>\<open>loadAuthorizedFace\<close>, called on the initial state as \<^verbatim>\<open>setup\<close> does,
  returns false, then in every later cycle, whatever the detector finds, the decision is
  never Granted (a cycle either returns early or is Denied), no alignment call and no
  scoring call is made, and the reference stays absent.
\<close>

theorem C4_no_reference_always_denied:
  assumes "loadAuthorizedFace e0 init_globals = (False, g, t0)"
  shows "\<forall>(oc, g', t) \<in> set (run_cycles es g).
           (skipped oc \<or> denied oc) \<and> \<not> granted oc \<and> filter is_matching t = [] \<and>
           authorized_face g' = None"
proof -
  from assms have f: "\<not> fst (loadAuthorizedFace e0 init_globals)"
    and g: "g = fst (snd (loadAuthorizedFace e0 init_globals))"
    by simp_all
  from f have "authorized_face g = None"
    unfolding g loadAuthorizedFace_state
    by (auto simp: loadAuthorizedFace_result init_globals_def split: option.splits list.splits)
  then show ?thesis
    by (auto dest: run_cycles_no_reference)
qed

theorem C4_witness:
  "loadAuthorizedFace (env_AB\<lparr>sd_open := False\<rparr>) init_globals =
     (False, init_globals, [Sd_open False, Serial_println ''Failed to open /faces/user1.jpg'']) \<and>
   map fst (run_cycles [env_AB, env_AB] init_globals) = [Decided False 0 0, Decided False 0 0] \<and>
   \<not> granted (fst (last (run_cycles [env_AB, env_AB] init_globals))) \<and>
   filter is_matching (snd (snd (last (run_cycles [env_AB, env_AB] init_globals)))) = []"
proof -
  have enrol: "loadAuthorizedFace (env_AB\<lparr>sd_open := False\<rparr>) init_globals =
     (False, init_globals, [Sd_open False, Serial_println ''Failed to open /faces/user1.jpg''])"
    by (simp add: loadAuthorizedFace_def)
  have up: "esp_camera_fb_get env_AB" "dl_matrix3du_alloc env_AB"
    by (simp_all add: env_AB_def)
  have nm: "\<not> fst (match_faces env_AB g (face_detect env_AB))" if "authorized_face g = None"
    for g :: "string globals"
    using that by (simp add: match_faces_fst)
  have outcomes: "map fst (run_cycles [env_AB, env_AB] init_globals) =
      [Decided False 0 0, Decided False 0 0]"
    by (simp add: run_cycles_Cons loop_decided_proj [OF up] nm init_globals_def MAX_ATTEMPTS_def
          word_sle_eq split_beta del: run_cycles.simps(2))
  have "last (run_cycles [env_AB, env_AB] init_globals) \<in>
      set (run_cycles [env_AB, env_AB] init_globals)"
    by (rule last_in_set) (simp add: split_beta)
  with C4_no_reference_always_denied [OF enrol, of "[env_AB, env_AB]"] have
    "\<not> granted (fst (last (run_cycles [env_AB, env_AB] init_globals))) \<and>
     filter is_matching (snd (snd (last (run_cycles [env_AB, env_AB] init_globals)))) = []"
    by (auto simp: split_beta)
  with enrol outcomes show ?thesis
    by (simp only: simp_thms)
qed

subsection \<open>C5: enrollment succeeds or leaves no reference\<close>

text \<open>
  Claim C5. Called with no reference installed, \<^verbatim>\<open>loadAuthorizedFace\<close> returns true if
  and only if its calls show that the image opened, the file buffer and the raster were
  allocated, the JPEG was decoded, the detector returned at least one box and the alignment
  of the first box succeeded. The alignment is attempted only once the buffer of the
  reference is allocated, so in terms of what the collaborators return the condition also
  names \<^verbatim>\<open>aligned_face_alloc\<close>. On success the reference installed is the alignment of the
  first box in detection order; on every failure the reference is absent. The attempt
  counter is not touched.
\<close>

theorem C5_loadAuthorizedFace:
  assumes "loadAuthorizedFace e g = (ok, g', t)" and "authorized_face g = None"
  shows "(ok \<longleftrightarrow>
            Sd_open True \<in> set t \<and> Malloc True \<in> set t \<and> Dl_matrix3du_alloc True \<in> set t \<and>
            Fmt2rgb888 True \<in> set t \<and>
            (\<exists>b bs a. Face_detect (Some (b # bs)) \<in> set t \<and>
               Aligned_face_align b (Some a) \<in> set t)) \<and>
         (ok \<longleftrightarrow>
            sd_open e \<and> malloc e \<and> dl_matrix3du_alloc e \<and> fmt2rgb888 e \<and>
            (\<exists>b bs a. face_detect e = Some (b # bs) \<and> aligned_face_alloc e \<and>
               aligned_face_align e b = Some a)) \<and>
         (ok \<longrightarrow>
            (\<exists>b bs a. face_detect e = Some (b # bs) \<and> aligned_face_align e b = Some a \<and>
               authorized_face g' = Some a)) \<and>
         (\<not> ok \<longrightarrow> authorized_face g' = None) \<and>
         attemptCount g' = attemptCount g"
proof -
  from assms(1) have ok: "ok = fst (loadAuthorizedFace e g)"
    and g': "g' = fst (snd (loadAuthorizedFace e g))"
    and t: "t = snd (snd (loadAuthorizedFace e g))"
    by simp_all
  have 1: "ok \<longleftrightarrow>
            Sd_open True \<in> set t \<and> Malloc True \<in> set t \<and> Dl_matrix3du_alloc True \<in> set t \<and>
            Fmt2rgb888 True \<in> set t \<and>
            (\<exists>b bs a. Face_detect (Some (b # bs)) \<in> set t \<and>
               Aligned_face_align b (Some a) \<in> set t)"
    unfolding ok t by (rule loadAuthorizedFace_events)
  have 2: "ok \<longleftrightarrow>
            sd_open e \<and> malloc e \<and> dl_matrix3du_alloc e \<and> fmt2rgb888 e \<and>
            (\<exists>b bs a. face_detect e = Some (b # bs) \<and> aligned_face_alloc e \<and>
               aligned_face_align e b = Some a)"
    unfolding ok by (rule loadAuthorizedFace_result)
  have 3: "ok \<longrightarrow>
            (\<exists>b bs a. face_detect e = Some (b # bs) \<and> aligned_face_align e b = Some a \<and>
               authorized_face g' = Some a)"
    unfolding 2 g' loadAuthorizedFace_state by auto
  have 4: "\<not> ok \<longrightarrow> authorized_face g' = None"
    unfolding 2 g' loadAuthorizedFace_state using assms(2)
    by (auto split: option.splits list.splits)
  have 5: "attemptCount g' = attemptCount g"
    unfolding g' by (rule loadAuthorizedFace_state)
  from 1 2 3 4 5 show ?thesis
    by blast
qed

theorem C5_witness:
  "authorized_face (init_globals :: string globals) = None \<and>
   fst (loadAuthorizedFace env_AB init_globals) \<and>
   fst (snd (loadAuthorizedFace env_AB init_globals)) =
     \<lparr>authorized_face = Some ''A'', attemptCount = 0\<rparr>"
proof -
  have run: "loadAuthorizedFace env_AB init_globals =
      (fst (loadAuthorizedFace env_AB init_globals),
       fst (snd (loadAuthorizedFace env_AB init_globals)),
       snd (snd (loadAuthorizedFace env_AB init_globals)))"
    by simp
  have absent: "authorized_face (init_globals :: string globals) = None"
    by (simp add: init_globals_def)
  have env: "sd_open env_AB" "malloc env_AB" "dl_matrix3du_alloc env_AB" "fmt2rgb888 env_AB"
    "face_detect env_AB = Some [''A'', ''B'']" "aligned_face_alloc env_AB"
    "aligned_face_align env_AB ''A'' = Some ''A''"
    by (simp_all add: env_AB_def)
  from C5_loadAuthorizedFace [OF run absent] env have
    "fst (loadAuthorizedFace env_AB init_globals) \<and>
     authorized_face (fst (snd (loadAuthorizedFace env_AB init_globals))) = Some ''A'' \<and>
     attemptCount (fst (snd (loadAuthorizedFace env_AB init_globals))) =
       attemptCount (init_globals :: string globals)"
    by auto
  then have "fst (loadAuthorizedFace env_AB init_globals) \<and>
     fst (snd (loadAuthorizedFace env_AB init_globals)) =
       \<lparr>authorized_face = Some ''A'', attemptCount = 0\<rparr>"
    by (cases "fst (snd (loadAuthorizedFace env_AB init_globals))") (simp add: init_globals_def)
  with absent show ?thesis
    by (rule conjI)
qed

subsection \<open>C6: telemetry once per decided cycle\<close>

text \<open>
  Claim C6. A cycle that reaches a decision calls \<^verbatim>\<open>sendToThingSpeak\<close> exactly once, with
  \<^verbatim>\<open>accessStatus\<close> 1 if the decision is Granted and 0 otherwise, and \<^verbatim>\<open>intruderAlert\<close> 1
  if \<^verbatim>\<open>sendEmailAlert\<close> was called in this cycle and 0 otherwise. A cycle that returned
  early, on a failed capture or a failed allocation of the image matrix, does not call it
  and makes no HTTP request.
\<close>

theorem C6_telemetry_once:
  assumes "loop e g = (oc, g', t)"
  shows "(\<not> skipped oc \<longrightarrow>
            filter is_telemetry t =
              [Call_sendToThingSpeak dummyLat dummyLng (if granted oc then 1 else 0)
                 (if Call_sendEmailAlert \<in> set t then 1 else 0)]) \<and>
         (skipped oc \<longrightarrow> filter is_telemetry t = [] \<and> filter is_http t = [])"
proof (cases "esp_camera_fb_get e \<and> dl_matrix3du_alloc e")
  case True
  then have ok: "esp_camera_fb_get e" "dl_matrix3du_alloc e"
    by simp_all
  from assms have oc: "oc = fst (loop e g)" and t: "t = snd (snd (loop e g))"
    by simp_all
  show ?thesis
    unfolding oc t mem_filter_alert
    by (simp add: loop_decided_proj [OF ok] skipped_def granted_def)
next
  case False
  with assms show ?thesis
    by (cases "esp_camera_fb_get e")
       (auto simp: loop_capture_failed loop_alloc_failed skipped_def is_telemetry_def is_http_def)
qed

theorem C6_witness:
  "\<not> skipped (fst (loop env_AB g_enrolled)) \<and>
   filter is_telemetry (snd (snd (loop env_AB g_enrolled))) =
     [Call_sendToThingSpeak dummyLat dummyLng 1 0] \<and>
   skipped (fst (loop (env_AB\<lparr>esp_camera_fb_get := False\<rparr>) g_enrolled)) \<and>
   filter is_telemetry (snd (snd (loop (env_AB\<lparr>esp_camera_fb_get := False\<rparr>) g_enrolled))) = []"
proof -
  let ?e = "env_AB\<lparr>esp_camera_fb_get := False\<rparr>"
  have run: "loop env_AB g_enrolled =
      (fst (loop env_AB g_enrolled), fst (snd (loop env_AB g_enrolled)),
       snd (snd (loop env_AB g_enrolled)))"
    by simp
  have run2: "loop ?e g_enrolled =
      (fst (loop ?e g_enrolled), fst (snd (loop ?e g_enrolled)), snd (snd (loop ?e g_enrolled)))"
    by simp
  have up: "esp_camera_fb_get env_AB" "dl_matrix3du_alloc env_AB"
    by (simp_all add: env_AB_def)
  have m: "fst (match_faces env_AB g_enrolled (face_detect env_AB))"
    by (simp add: match_faces_fst scan_fst qualifies_def env_AB_def g_enrolled_def
          MATCH_THRESHOLD_def)
  have dec: "\<not> skipped (fst (loop env_AB g_enrolled))"
    by (simp add: loop_outcome_cases up)
  have gr: "granted (fst (loop env_AB g_enrolled))"
    by (simp add: loop_decided_proj(1) [OF up] granted_def m)
  have al: "Call_sendEmailAlert \<notin> set (snd (snd (loop env_AB g_enrolled)))"
    by (simp add: mem_filter_alert loop_decided_proj(5) [OF up] m)
  have sk: "skipped (fst (loop ?e g_enrolled))"
    by (simp add: loop_outcome_cases)
  from C6_telemetry_once [OF run] dec gr al have
    "filter is_telemetry (snd (snd (loop env_AB g_enrolled))) =
       [Call_sendToThingSpeak dummyLat dummyLng 1 0]"
    by simp
  moreover from C6_telemetry_once [OF run2] sk have
    "filter is_telemetry (snd (snd (loop ?e g_enrolled))) = []"
    by simp
  ultimately show ?thesis
    using dec sk by simp
qed

subsection \<open>C7: an empty detection is Denied without matching\<close>

text \<open>
  Claim C7. If the detector returns \<^verbatim>\<open>NULL\<close> or an array of zero boxes, the decision of
  the cycle is Denied and the cycle makes no alignment call and no scoring call.
\<close>

theorem C7_empty_detection:
  assumes "loop e g = (oc, g', t)" and "esp_camera_fb_get e" and "dl_matrix3du_alloc e"
    and "face_detect e = None \<or> face_detect e = Some []"
  shows "denied oc \<and> filter is_matching t = []"
proof -
  from assms have oc: "oc = fst (loop e g)" and t: "t = snd (snd (loop e g))"
    by simp_all
  from assms(4) have "\<not> fst (match_faces e g (face_detect e))"
    by (auto simp: match_faces_fst)
  moreover from assms(4) have "filter is_matching (snd (match_faces e g (face_detect e))) = []"
    by (auto simp: match_faces_def face_detected_def split: option.splits)
  ultimately show ?thesis
    unfolding oc t
    by (simp add: loop_decided_proj [OF assms(2,3)] denied_def)
qed

theorem C7_witness:
  "esp_camera_fb_get (env_AB\<lparr>face_detect := Some []\<rparr>) \<and>
   dl_matrix3du_alloc (env_AB\<lparr>face_detect := Some []\<rparr>) \<and>
   face_detect (env_AB\<lparr>face_detect := Some []\<rparr>) = Some [] \<and>
   denied (fst (loop (env_AB\<lparr>face_detect := Some []\<rparr>) g_enrolled)) \<and>
   filter is_matching (snd (snd (loop (env_AB\<lparr>face_detect := Some []\<rparr>) g_enrolled))) = []"
proof -
  let ?e = "env_AB\<lparr>face_detect := Some []\<rparr>"
  have run: "loop ?e g_enrolled =
      (fst (loop ?e g_enrolled), fst (snd (loop ?e g_enrolled)), snd (snd (loop ?e g_enrolled)))"
    by simp
  have up: "esp_camera_fb_get ?e" "dl_matrix3du_alloc ?e"
    by (simp_all add: env_AB_def)
  have em: "face_detect ?e = None \<or> face_detect ?e = Some []"
    by simp
  have em': "face_detect ?e = Some []"
    by simp
  from C7_empty_detection [OF run up em] up em' show ?thesis
    by (simp only: simp_thms)
qed

subsection \<open>C8: the delay at the end of a cycle\<close>

text \<open>
  Claim C8 says that the delay of 2000 ms is run on every exit path of a cycle, the early
  returns included. It is not: a cycle whose capture fails ends with \<^verbatim>\<open>delay(500)\<close> and a
  cycle whose image matrix cannot be allocated ends with \<^verbatim>\<open>delay(200)\<close>, and neither runs
  a delay of 2000 ms.
\<close>

theorem C8_counterexample:
  "loop (env_AB\<lparr>esp_camera_fb_get := False\<rparr>) g_enrolled =
     (Capture_failed, g_enrolled,
      [Esp_camera_fb_get False, Serial_println ''Camera capture failed'', Delay 500]) \<and>
   Delay 2000 \<notin> set (snd (snd (loop (env_AB\<lparr>esp_camera_fb_get := False\<rparr>) g_enrolled))) \<and>
   loop (env_AB\<lparr>dl_matrix3du_alloc := False\<rparr>) g_enrolled =
     (Alloc_failed, g_enrolled,
      [Esp_camera_fb_get True, Dl_matrix3du_alloc False,
       Serial_println ''dl_matrix3du_alloc failed'', Esp_camera_fb_return, Delay 200]) \<and>
   Delay 2000 \<notin> set (snd (snd (loop (env_AB\<lparr>dl_matrix3du_alloc := False\<rparr>) g_enrolled)))"
  by (simp add: loop_def env_AB_def)

text \<open>
  Claim C8, amended. Every cycle ends with a delay: of 2000 ms when the cycle reached a
  decision, of 500 ms when the capture failed, of 200 ms when the image matrix could not be
  allocated. The delay of 2000 ms is run exactly in the cycles that reached a decision.
\<close>

theorem C8_cycle_delay:
  assumes "loop e g = (oc, g', t)"
  shows "last t = Delay (case oc of Capture_failed \<Rightarrow> 500 | Alloc_failed \<Rightarrow> 200
                          | Decided fr a i \<Rightarrow> 2000) \<and>
         (Delay 2000 \<in> set t \<longleftrightarrow> \<not> skipped oc)"
proof (cases "esp_camera_fb_get e \<and> dl_matrix3du_alloc e")
  case True
  then have ok: "esp_camera_fb_get e" "dl_matrix3du_alloc e"
    by simp_all
  from assms have oc: "oc = fst (loop e g)" and t: "t = snd (snd (loop e g))"
    by simp_all
  have "last t = Delay 2000"
    unfolding t by (rule loop_decided_proj(8) [OF ok])
  moreover have "Delay 2000 \<in> set t"
    unfolding t by (simp add: loop_decided [OF ok])
  ultimately show ?thesis
    unfolding oc by (simp add: loop_decided_proj(1) [OF ok] skipped_def)
next
  case False
  with assms show ?thesis
    by (cases "esp_camera_fb_get e")
       (auto simp: loop_capture_failed loop_alloc_failed skipped_def)
qed

theorem C8_witness:
  "last (snd (snd (loop (env_AB\<lparr>dl_matrix3du_alloc := False\<rparr>) g_enrolled))) = Delay 200 \<and>
   Delay 2000 \<notin> set (snd (snd (loop (env_AB\<lparr>dl_matrix3du_alloc := False\<rparr>) g_enrolled))) \<and>
   last (snd (snd (loop env_AB g_enrolled))) = Delay 2000 \<and>
   Delay 2000 \<in> set (snd (snd (loop env_AB g_enrolled)))"
proof -
  let ?e = "env_AB\<lparr>dl_matrix3du_alloc := False\<rparr>"
  have run1: "loop ?e g_enrolled =
      (fst (loop ?e g_enrolled), fst (snd (loop ?e g_enrolled)), snd (snd (loop ?e g_enrolled)))"
    by simp
  have run2: "loop env_AB g_enrolled =
      (fst (loop env_AB g_enrolled), fst (snd (loop env_AB g_enrolled)),
       snd (snd (loop env_AB g_enrolled)))"
    by simp
  have o1: "fst (loop ?e g_enrolled) = Alloc_failed"
    by (simp add: loop_outcome_cases env_AB_def)
  have o2: "\<not> skipped (fst (loop env_AB g_enrolled))"
    by (simp add: loop_outcome_cases env_AB_def)
  then obtain fr a i where o3: "fst (loop env_AB g_enrolled) = Decided fr a i"
    by (cases "fst (loop env_AB g_enrolled)") (simp_all add: skipped_def)
  from C8_cycle_delay [OF run1] have
    "last (snd (snd (loop ?e g_enrolled))) = Delay 200 \<and>
     Delay 2000 \<notin> set (snd (snd (loop ?e g_enrolled)))"
    by (simp add: o1 skipped_def)
  moreover from C8_cycle_delay [OF run2] have
    "last (snd (snd (loop env_AB g_enrolled))) = Delay 2000 \<and>
     Delay 2000 \<in> set (snd (snd (loop env_AB g_enrolled)))"
    by (simp add: o3 skipped_def)
  ultimately show ?thesis
    by simp
qed

subsection \<open>C9: a failed allocation of the scan buffer is a denial\<close>

text \<open>
  Claim C9. In a cycle that reaches the detection with a reference loaded and at least one
  box, if \<^verbatim>\<open>aligned_face_alloc\<close> fails, then no candidate is aligned or scored, the
  decision is Denied and the cycle is not skipped, the counter is incremented and reset
  with an alert at \<^verbatim>\<open>MAX_ATTEMPTS\<close>, and the outcome, the state left, the writes to the
  counter, the alerts and the telemetry call are those of the same cycle with the buffer
  allocated and no candidate qualifying.
\<close>

theorem C9_scratch_alloc_failure_denies:
  assumes "loop e g = (oc, g', t)" and "esp_camera_fb_get e" and "dl_matrix3du_alloc e"
    and "authorized_face g = Some ref" and "face_detect e = Some bs" and "bs \<noteq> []"
    and "\<not> aligned_face_alloc e"
  shows "denied oc \<and> \<not> skipped oc \<and> filter is_matching t = [] \<and>
         attemptCount g' =
           (if MAX_ATTEMPTS \<le>s attemptCount g + 1 then 0 else attemptCount g + 1) \<and>
         filter is_alert t =
           (if MAX_ATTEMPTS \<le>s attemptCount g + 1 then [Call_sendEmailAlert] else []) \<and>
         (\<forall>al rc.
            (\<forall>b\<in>set bs. \<not> qualifies
               (e\<lparr>aligned_face_alloc := True, aligned_face_align := al, fr_recognize_face := rc\<rparr>)
               ref b) \<longrightarrow>
            (case loop
               (e\<lparr>aligned_face_alloc := True, aligned_face_align := al, fr_recognize_face := rc\<rparr>)
               g of
               (oc2, g2, t2) \<Rightarrow>
                 oc2 = oc \<and> g2 = g' \<and> counter_writes t2 = counter_writes t \<and>
                 filter is_alert t2 = filter is_alert t \<and>
                 filter is_telemetry t2 = filter is_telemetry t))"
proof -
  from assms(1) have oc: "oc = fst (loop e g)" and g': "g' = fst (snd (loop e g))"
    and t: "t = snd (snd (loop e g))"
    by simp_all
  note ok = assms(2,3)
  from assms(7) have nm: "\<not> fst (match_faces e g (face_detect e))"
    by (simp add: match_faces_fst)
  from assms(4,5,7) have mm: "filter is_matching (snd (match_faces e g (face_detect e))) = []"
    by (simp add: match_faces_matching)
  have first: "denied oc \<and> \<not> skipped oc \<and> filter is_matching t = [] \<and>
         attemptCount g' =
           (if MAX_ATTEMPTS \<le>s attemptCount g + 1 then 0 else attemptCount g + 1) \<and>
         filter is_alert t =
           (if MAX_ATTEMPTS \<le>s attemptCount g + 1 then [Call_sendEmailAlert] else [])"
    unfolding oc g' t using nm mm
    by (simp add: loop_decided_proj [OF ok] denied_def skipped_def)
  have second: "case loop
               (e\<lparr>aligned_face_alloc := True, aligned_face_align := al, fr_recognize_face := rc\<rparr>)
               g of
               (oc2, g2, t2) \<Rightarrow>
                 oc2 = oc \<and> g2 = g' \<and> counter_writes t2 = counter_writes t \<and>
                 filter is_alert t2 = filter is_alert t \<and>
                 filter is_telemetry t2 = filter is_telemetry t"
    if q: "\<forall>b\<in>set bs. \<not> qualifies
               (e\<lparr>aligned_face_alloc := True, aligned_face_align := al, fr_recognize_face := rc\<rparr>)
               ref b" for al rc
  proof -
    let ?e = "e\<lparr>aligned_face_alloc := True, aligned_face_align := al, fr_recognize_face := rc\<rparr>"
    have ok2: "esp_camera_fb_get ?e" "dl_matrix3du_alloc ?e"
      using ok by simp_all
    have fd: "face_detect ?e = face_detect e"
      by simp
    from q assms(4,5) have nm2: "\<not> fst (match_faces ?e g (face_detect e))"
      by (simp add: match_faces_fst scan_fst)
    have a: "fst (snd (loop ?e g)) = fst (snd (loop e g))"
      by (simp only: loop_state [OF ok] loop_state [OF ok2] fd nm nm2)
    have b: "fst (loop ?e g) = fst (loop e g)"
      by (simp only: loop_decided_proj(1) [OF ok] loop_decided_proj(1) [OF ok2] fd nm nm2)
    have c: "counter_writes (snd (snd (loop ?e g))) = counter_writes (snd (snd (loop e g)))"
      by (simp only: loop_decided_proj(7) [OF ok] loop_decided_proj(7) [OF ok2] fd nm nm2)
    have d: "filter is_alert (snd (snd (loop ?e g))) = filter is_alert (snd (snd (loop e g)))"
      by (simp only: loop_decided_proj(5) [OF ok] loop_decided_proj(5) [OF ok2] fd nm nm2)
    have f: "filter is_telemetry (snd (snd (loop ?e g))) =
        filter is_telemetry (snd (snd (loop e g)))"
      by (simp only: loop_decided_proj(6) [OF ok] loop_decided_proj(6) [OF ok2] fd nm nm2)
    show ?thesis
      unfolding oc g' t split_beta by (simp only: a b c d f simp_thms)
  qed
  from conjI [OF first allI [OF allI [OF impI [OF second]]]] show ?thesis
    by (simp only: conj_assoc)
qed

theorem C9_witness:
  "authorized_face g_enrolled = Some ''user1'' \<and>
   face_detect (env_AB\<lparr>aligned_face_alloc := False\<rparr>) = Some [''A'', ''B''] \<and>
   \<not> aligned_face_alloc (env_AB\<lparr>aligned_face_alloc := False\<rparr>) \<and>
   denied (fst (loop (env_AB\<lparr>aligned_face_alloc := False\<rparr>) g_enrolled)) \<and>
   filter is_matching (snd (snd (loop (env_AB\<lparr>aligned_face_alloc := False\<rparr>) g_enrolled))) = [] \<and>
   attemptCount (fst (snd (loop (env_AB\<lparr>aligned_face_alloc := False\<rparr>) g_enrolled))) = 0 \<and>
   filter is_alert (snd (snd (loop (env_AB\<lparr>aligned_face_alloc := False\<rparr>) g_enrolled))) =
     [Call_sendEmailAlert]"
proof -
  let ?e = "env_AB\<lparr>aligned_face_alloc := False\<rparr>"
  have run: "loop ?e g_enrolled =
      (fst (loop ?e g_enrolled), fst (snd (loop ?e g_enrolled)), snd (snd (loop ?e g_enrolled)))"
    by simp
  have up: "esp_camera_fb_get ?e" "dl_matrix3du_alloc ?e"
    by (simp_all add: env_AB_def)
  have inp: "authorized_face g_enrolled = Some ''user1''" "face_detect ?e = Some [''A'', ''B'']"
    "[''A'', ''B''] \<noteq> []" "\<not> aligned_face_alloc ?e"
    by (simp_all add: env_AB_def g_enrolled_def)
  have cnt: "MAX_ATTEMPTS \<le>s attemptCount g_enrolled + 1"
    by (simp add: g_enrolled_def MAX_ATTEMPTS_def)
  from C9_scratch_alloc_failure_denies [OF run up inp] have
    "denied (fst (loop ?e g_enrolled)) \<and>
     filter is_matching (snd (snd (loop ?e g_enrolled))) = [] \<and>
     attemptCount (fst (snd (loop ?e g_enrolled))) = 0 \<and>
     filter is_alert (snd (snd (loop ?e g_enrolled))) = [Call_sendEmailAlert]"
    by (simp only: cnt if_True simp_thms)
  with inp(1,2,4) show ?thesis
    by (simp only: simp_thms)
qed

subsection \<open>C10: no request when the network is down\<close>

text \<open>
  Claim C10. If \<^verbatim>\<open>WiFi.status()\<close> is not \<^verbatim>\<open>WL_CONNECTED\<close>, \<^verbatim>\<open>sendToThingSpeak\<close> logs
  one line and returns without any call to the HTTP client, so no cycle makes an HTTP
  request, the cycles that reached a decision included.
\<close>

theorem C10_wifi_down_no_request:
  assumes "\<not> wifi_connected e"
  shows "sendToThingSpeak e lat lng accessStatus intruderAlert =
           [Wifi_status False, Serial_println ''WiFi disconnected, skip ThingSpeak''] \<and>
         filter is_http (sendToThingSpeak e lat lng accessStatus intruderAlert) = [] \<and>
         (\<forall>g. filter is_http (snd (snd (loop e g))) = [])"
  using assms by (simp add: sendToThingSpeak_def is_http_def loop_http)

theorem C10_witness:
  "\<not> wifi_connected (env_AB\<lparr>wifi_connected := False\<rparr>) \<and>
   \<not> skipped (fst (loop (env_AB\<lparr>wifi_connected := False\<rparr>) g_enrolled)) \<and>
   filter is_http (snd (snd (loop (env_AB\<lparr>wifi_connected := False\<rparr>) g_enrolled))) = []"
proof -
  let ?e = "env_AB\<lparr>wifi_connected := False\<rparr>"
  have down: "\<not> wifi_connected ?e"
    by simp
  have dec: "\<not> skipped (fst (loop ?e g_enrolled))"
    by (simp add: loop_outcome_cases env_AB_def)
  from C10_wifi_down_no_request [OF down, of dummyLat dummyLng 0 0]
  have "filter is_http (snd (snd (loop ?e g_enrolled))) = []"
    by blast
  with down dec show ?thesis
    by (intro conjI)
qed

end
